theory Spec2Isabelle
  imports Complex_Main
begin

section \<open>The adaptive receptive-field denoising loop of text2image.py\<close>

text \<open>
  The development embeds the closure \<open>forward\<close> returned by \<open>pipeline_processor\<close>
  (text2image.py, lines 88 to 295): the construction of the inflated network copies before the
  loop (lines 180 to 189) and the body of the denoising loop (lines 191 to 264).

  A Python float is the real number it denotes, and the float operations of the loop body
  round their results to binary64; Python ints are \<open>int\<close>, the loop index of
  \<open>enumerate\<close> is a \<open>nat\<close>. Every exception the loop body can raise is a value of
  \<open>py_error\<close>; a function that can raise returns \<open>py_error + 'a\<close>, and a function that
  can raise after it has mutated a network returns the network together with that sum, so
  that the state an exception leaves behind is part of the result.
\<close>

subsection \<open>Data\<close>

datatype py_error =
    ZeroDivisionError   \<comment> \<open>\<open>(tau - i) / tau\<close> with \<open>tau == 0\<close>\<close>
  | OverflowError       \<comment> \<open>a quotient too large for a float, \<open>math.ceil\<close> of an infinity\<close>
  | AttributeError      \<comment> \<open>\<open>None.keys()\<close>, \<open>None.named_modules()\<close>\<close>
  | TypeError           \<comment> \<open>\<open>name in None\<close>\<close>
  | ValueError          \<comment> \<open>unpacking \<open>chunk(2)\<close> of a prediction without two halves\<close>
  | UnboundLocalError   \<comment> \<open>reading \<open>noise_pred_vanilla\<close> before it is assigned\<close>
  | NetworkError        \<comment> \<open>any exception raised inside the network invocation\<close>

text \<open>
  The value of the attribute \<open>module.forward\<close>. \<open>Native f\<close> is a forward computation
  \<open>f\<close> that the loop did not install. \<open>ReDilateConvProcessor name dilate activate\<close> is
  the object built by \<open>ReDilateConvProcessor(module, dilate, mode='bilinear', activate=...)\<close>
  for the module called \<open>name\<close>; the class lives in \<open>model.py\<close>, so the object is kept
  as the record of its constructor arguments (the mode is the constant \<open>'bilinear'\<close>).
\<close>

datatype 'f forward =
    Native 'f
  | ReDilateConvProcessor string real bool

text \<open>
  A network is what \<open>unet.named_modules()\<close> enumerates: the qualified module names, in
  order, each with the current value of its \<open>forward\<close> attribute. PyTorch yields every
  qualified name once, which the theorems state as \<open>distinct (map fst net)\<close>.
\<close>

type_synonym 'f network = "(string \<times> 'f forward) list"

type_synonym 'f backup_forwards = "string \<rightharpoonup> 'f forward"

text \<open>The arguments of \<open>pipeline_processor\<close> (lines 88 to 98), with their \<open>None\<close> defaults.\<close>

record config =
  ndcfg_tau :: int
  dilate_tau :: int
  inflate_tau :: int
  dilate_settings :: "(string \<rightharpoonup> real) option"
  inflate_settings :: "string list option"
  ndcfg_dilate_settings :: "(string \<rightharpoonup> real) option"
  transform :: "real list list option"
  progressive :: bool

subsection \<open>Double arithmetic\<close>

text \<open>
  A Python float is a binary64 number, here the real number it denotes. An arithmetic
  operation on floats returns the exact result rounded to the nearest binary64 number, ties
  to the even significand: 53 significant bits when the magnitude is at least \<open>2^-1022\<close>,
  multiples of \<open>2^-1074\<close> below. \<open>round_even\<close> rounds to the nearest integer, ties to
  even; \<open>float_exponent x\<close> is the exponent of the binade of \<open>x\<close>, not below \<open>-1022\<close>;
  \<open>round_double\<close> is the rounding, before the test for overflow: a rounded magnitude of
  \<open>2^1024\<close> or more is not a finite float. \<open>max_double\<close> is the largest finite float.
\<close>

definition round_even :: "real \<Rightarrow> int" where
  "round_even y =
     (let f = \<lfloor>y\<rfloor>; d = y - real_of_int f
      in if d < 1 / 2 then f else if 1 / 2 < d then f + 1 else if even f then f else f + 1)"

definition float_exponent :: "real \<Rightarrow> int" where
  "float_exponent x = max \<lfloor>log 2 \<bar>x\<bar>\<rfloor> (- 1022)"

definition round_double :: "real \<Rightarrow> real" where
  "round_double x =
     (let ulp = 2 powi (float_exponent x - 52)
      in ulp * real_of_int (round_even (x / ulp)))"

definition max_double :: real where
  "max_double = (2 ^ 53 - 1) * 2 ^ 971"

subsection \<open>The dilation rate of one layer (lines 201 to 205 and 229 to 233)\<close>

text \<open>
  Line 203 (and 231): \<open>max(math.ceil(dilate * ((tau - i) / tau)), 2)\<close>, where \<open>dilate\<close>
  is a finite float. \<open>(tau - i) / tau\<close> is the true division of two ints: it raises
  \<open>ZeroDivisionError\<close> when \<open>tau\<close> is zero, gives the correctly rounded quotient
  otherwise, and raises \<open>OverflowError\<close> when that is too large for a float. The product
  is a float multiplication, rounded again; when it overflows it is an infinity, on which
  \<open>math.ceil\<close> raises \<open>OverflowError\<close>. \<open>math.ceil\<close> and \<open>max\<close> are exact on ints.
\<close>

definition progressive_dilate :: "real \<Rightarrow> int \<Rightarrow> nat \<Rightarrow> py_error + real" where
  "progressive_dilate dilate tau i =
     (if tau = 0 then Inl ZeroDivisionError
      else
        (let quotient = round_double (real_of_int (tau - int i) / real_of_int tau)
         in if 2 ^ 1024 \<le> \<bar>quotient\<bar> then Inl OverflowError
            else
              (let product = round_double (dilate * quotient)
               in if 2 ^ 1024 \<le> \<bar>product\<bar> then Inl OverflowError
                  else Inr (real_of_int (max \<lceil>product\<rceil> 2)))))"

text \<open>
  Lines 204 and 205 (and 232, 233): \<open>if i < inflate_tau and name in inflate_settings:
  dilate = dilate / 2\<close>. The membership test is evaluated only when \<open>i < inflate_tau\<close>,
  and raises \<open>TypeError\<close> when \<open>inflate_settings\<close> is \<open>None\<close>. The division by 2 is a
  true division, correctly rounded (and exact unless the quotient is below \<open>2^-1022\<close>).
\<close>

definition inflate_halve :: "config \<Rightarrow> nat \<Rightarrow> string \<Rightarrow> real \<Rightarrow> py_error + real" where
  "inflate_halve cfg i name dilate =
     (if int i < inflate_tau cfg then
        (case inflate_settings cfg of
           None \<Rightarrow> Inl TypeError
         | Some names \<Rightarrow> Inr (if name \<in> set names then round_double (dilate / 2) else dilate))
      else Inr dilate)"

text \<open>
  Lines 201 to 205 for a layer whose base rate \<open>base\<close> was read from the settings of the
  branch, with \<open>tau\<close> the window of the branch (\<open>dilate_tau\<close> or \<open>ndcfg_tau\<close>).
\<close>

definition layer_dilate :: "config \<Rightarrow> int \<Rightarrow> nat \<Rightarrow> string \<Rightarrow> real \<Rightarrow> py_error + real" where
  "layer_dilate cfg tau i name base =
     (case (if progressive cfg then progressive_dilate base tau i else Inr base) of
        Inl e \<Rightarrow> Inl e
      | Inr dilate \<Rightarrow> inflate_halve cfg i name dilate)"

subsection \<open>Patching and restoring the forward computations\<close>

text \<open>
  Lines 198 to 209 (and 226 to 237): the loop over \<open>unet.named_modules()\<close>. The modules
  are visited in order; an exception stops the loop and leaves the modules visited so far
  patched. The result is the network as the loop leaves it, and either the exception or the
  dictionary \<open>backup_forwards\<close>.
\<close>

fun patch_forwards ::
  "config \<Rightarrow> (string \<rightharpoonup> real) option \<Rightarrow> int \<Rightarrow> nat \<Rightarrow> 'f network \<Rightarrow> 'f backup_forwards
     \<Rightarrow> 'f network \<times> (py_error + 'f backup_forwards)" where
  "patch_forwards cfg settings tau i [] backup = ([], Inr backup)"
| "patch_forwards cfg settings tau i ((name, fwd) # ms) backup =
     (case settings of
        None \<Rightarrow> ((name, fwd) # ms, Inl AttributeError)
      | Some ds \<Rightarrow>
          (case ds name of
             None \<Rightarrow>
               (case patch_forwards cfg settings tau i ms backup of
                  (ms', r) \<Rightarrow> ((name, fwd) # ms', r))
           | Some base \<Rightarrow>
               (case layer_dilate cfg tau i name base of
                  Inl e \<Rightarrow> ((name, fwd) # ms, Inl e)
                | Inr dilate \<Rightarrow>
                    (case patch_forwards cfg settings tau i ms (backup(name \<mapsto> fwd)) of
                       (ms', r) \<Rightarrow>
                         ((name, ReDilateConvProcessor name dilate (int i < tau)) # ms', r)))))"

text \<open>Lines 219 to 221 (and 246 to 248): every module named in the backup gets its entry back.\<close>

definition restore_forwards :: "'f backup_forwards \<Rightarrow> 'f network \<Rightarrow> 'f network" where
  "restore_forwards backup net =
     map (\<lambda>(name, fwd). case backup name of None \<Rightarrow> (name, fwd) | Some f \<Rightarrow> (name, f)) net"

subsection \<open>Tensors and the external collaborators\<close>

text \<open>
  A tensor of one sample batch is a value of a real vector space \<open>'x\<close>. With
  classifier-free guidance the batch is doubled: \<open>torch.cat([latents] * 2)\<close> is
  \<open>Doubled latents latents\<close>, and \<open>chunk(2)\<close> gives the two halves back. A prediction
  that does not have two halves cannot be unpacked into two names.
\<close>

datatype 'x batch = Single 'x | Doubled 'x 'x

definition chunk2 :: "'x batch \<Rightarrow> py_error + ('x \<times> 'x)" where
  "chunk2 b = (case b of Single x \<Rightarrow> Inl ValueError | Doubled u c \<Rightarrow> Inr (u, c))"

text \<open>
  The collaborators the loop calls and does not define. \<open>unet_call net input t\<close> is
  \<open>unet(latent_model_input, t, encoder_hidden_states=..., cross_attention_kwargs=...).sample\<close>
  (the prompt embeddings are fixed for the run): its result depends on the forward
  computations installed in \<open>net\<close> at the time of the call, it may raise, and it does not
  assign any \<open>forward\<close> attribute itself. \<open>inflate_kernels\<close> is the function of
  \<open>model.py\<close> called at lines 184 and 189.
\<close>

record ('x, 'f) externals =
  unet_call :: "'f network \<Rightarrow> 'x batch \<Rightarrow> int \<Rightarrow> py_error + 'x batch"
  scale_model_input :: "'x batch \<Rightarrow> int \<Rightarrow> 'x batch"
  scheduler_step :: "'x batch \<Rightarrow> int \<Rightarrow> 'x \<Rightarrow> 'x"
  rescale_noise_cfg :: "'x \<Rightarrow> 'x \<Rightarrow> real \<Rightarrow> 'x"
  inflate_kernels :: "'f network \<Rightarrow> string list \<Rightarrow> real list list \<Rightarrow> 'f network"

subsection \<open>The networks of one call (lines 180 to 189)\<close>

record 'f pipeline =
  unet :: "'f network"
  unet_inflate :: "'f network option"
  unet_inflate_vanilla :: "'f network option"

text \<open>\<open>copy.deepcopy(self.unet)\<close>, inflated when \<open>inflate_settings\<close> is not \<open>None\<close>.\<close>

definition inflated_copy ::
  "('x, 'f) externals \<Rightarrow> config \<Rightarrow> real list list \<Rightarrow> 'f network \<Rightarrow> 'f network" where
  "inflated_copy ext cfg tr net =
     (case inflate_settings cfg of None \<Rightarrow> net | Some names \<Rightarrow> inflate_kernels ext net names tr)"

definition prepare_networks :: "('x, 'f) externals \<Rightarrow> config \<Rightarrow> 'f network \<Rightarrow> 'f pipeline" where
  "prepare_networks ext cfg net =
     \<lparr> unet = net,
       unet_inflate =
         (case transform cfg of None \<Rightarrow> None | Some tr \<Rightarrow> Some (inflated_copy ext cfg tr net)),
       unet_inflate_vanilla =
         (case transform cfg of
            None \<Rightarrow> None
          | Some tr \<Rightarrow> if ndcfg_tau cfg > 0 then Some (inflated_copy ext cfg tr net) else None) \<rparr>"

text \<open>The three variables a branch can bind to \<open>unet\<close> (lines 196 and 224).\<close>

datatype slot = SelfUnet | UnetInflate | UnetInflateVanilla

definition get_net :: "'f pipeline \<Rightarrow> slot \<Rightarrow> 'f network option" where
  "get_net st s =
     (case s of SelfUnet \<Rightarrow> Some (unet st) | UnetInflate \<Rightarrow> unet_inflate st
      | UnetInflateVanilla \<Rightarrow> unet_inflate_vanilla st)"

definition set_net :: "'f pipeline \<Rightarrow> slot \<Rightarrow> 'f network \<Rightarrow> 'f pipeline" where
  "set_net st s net =
     (case s of SelfUnet \<Rightarrow> st\<lparr>unet := net\<rparr> | UnetInflate \<Rightarrow> st\<lparr>unet_inflate := Some net\<rparr>
      | UnetInflateVanilla \<Rightarrow> st\<lparr>unet_inflate_vanilla := Some net\<rparr>)"

text \<open>Line 196: \<open>unet_inflate if i < inflate_tau and transform is not None else self.unet\<close>.\<close>

definition adapted_slot :: "config \<Rightarrow> nat \<Rightarrow> slot" where
  "adapted_slot cfg i =
     (if int i < inflate_tau cfg \<and> transform cfg \<noteq> None then UnetInflate else SelfUnet)"

text \<open>Line 224, the same choice with \<open>unet_inflate_vanilla\<close>.\<close>

definition vanilla_slot :: "config \<Rightarrow> nat \<Rightarrow> slot" where
  "vanilla_slot cfg i =
     (if int i < inflate_tau cfg \<and> transform cfg \<noteq> None then UnetInflateVanilla else SelfUnet)"

subsection \<open>One branch: patch, invoke, restore\<close>

text \<open>
  Lines 197 to 221 for the adapted branch (\<open>settings = dilate_settings\<close>,
  \<open>tau = dilate_tau\<close>) and lines 225 to 248 for the vanilla branch
  (\<open>settings = ndcfg_dilate_settings\<close>, \<open>tau = ndcfg_tau\<close>); the two passages differ in
  these two names and in the network variable only. There is no \<open>try\<close> around the
  invocation: an exception leaves the function at once, with the network as it is then.
\<close>

definition run_branch ::
  "('x, 'f) externals \<Rightarrow> config \<Rightarrow> (string \<rightharpoonup> real) option \<Rightarrow> int \<Rightarrow> nat \<Rightarrow> slot
     \<Rightarrow> 'x batch \<Rightarrow> int \<Rightarrow> 'f pipeline \<Rightarrow> 'f pipeline \<times> (py_error + 'x batch)" where
  "run_branch ext cfg settings tau i s input t st =
     (case get_net st s of
        None \<Rightarrow> (st, Inl AttributeError)
      | Some net \<Rightarrow>
          (case patch_forwards cfg settings tau i net Map.empty of
             (net', Inl e) \<Rightarrow> (set_net st s net', Inl e)
           | (net', Inr backup) \<Rightarrow>
               (case unet_call ext net' input t of
                  Inl e \<Rightarrow> (set_net st s net', Inl e)
                | Inr sample \<Rightarrow> (set_net st s (restore_forwards backup net'), Inr sample))))"

subsection \<open>Guidance (lines 250 to 261)\<close>

text \<open>
  Lines 251 to 257. The result is the guided estimate together with \<open>noise_pred_text\<close>,
  which line 261 needs. \<open>noise_pred_vanilla\<close> is assigned at line 239 exactly in the
  steps with \<open>i < ndcfg_tau\<close>; reading it unassigned would raise.
\<close>

datatype 'x guided = Raw "'x batch" | Guided 'x 'x

definition perform_guidance ::
  "config \<Rightarrow> real \<Rightarrow> nat \<Rightarrow> 'x::real_vector batch \<Rightarrow> 'x batch option \<Rightarrow> py_error + 'x guided" where
  "perform_guidance cfg guidance_scale i noise_pred noise_pred_vanilla =
     (if guidance_scale > 1 then
        (case chunk2 noise_pred of
           Inl e \<Rightarrow> Inl e
         | Inr (noise_pred_uncond, noise_pred_text) \<Rightarrow>
             (if int i < ndcfg_tau cfg then
                (case noise_pred_vanilla of
                   None \<Rightarrow> Inl UnboundLocalError
                 | Some v \<Rightarrow>
                     (case chunk2 v of
                        Inl e \<Rightarrow> Inl e
                      | Inr (vanilla, _) \<Rightarrow>
                          Inr (Guided
                                 (vanilla + guidance_scale *\<^sub>R (noise_pred_text - noise_pred_uncond))
                                 noise_pred_text)))
              else
                Inr (Guided
                       (noise_pred_uncond + guidance_scale *\<^sub>R (noise_pred_text - noise_pred_uncond))
                       noise_pred_text)))
      else Inr (Raw noise_pred))"

text \<open>Lines 259 to 261, giving the estimate that line 264 hands to the scheduler.\<close>

definition combined_noise ::
  "('x::real_vector, 'f) externals \<Rightarrow> config \<Rightarrow> real \<Rightarrow> real \<Rightarrow> nat \<Rightarrow> 'x batch \<Rightarrow> 'x batch option
     \<Rightarrow> py_error + 'x batch" where
  "combined_noise ext cfg guidance_scale guidance_rescale i noise_pred noise_pred_vanilla =
     (case perform_guidance cfg guidance_scale i noise_pred noise_pred_vanilla of
        Inl e \<Rightarrow> Inl e
      | Inr (Raw p) \<Rightarrow> Inr p
      | Inr (Guided g noise_pred_text) \<Rightarrow>
          Inr (Single (if guidance_scale > 1 \<and> guidance_rescale > 0
                       then rescale_noise_cfg ext g noise_pred_text guidance_rescale else g)))"

subsection \<open>One step and the loop (lines 191 to 264)\<close>

text \<open>Line 193 and 194.\<close>

definition latent_model_input :: "('x, 'f) externals \<Rightarrow> real \<Rightarrow> 'x \<Rightarrow> int \<Rightarrow> 'x batch" where
  "latent_model_input ext guidance_scale latents t =
     scale_model_input ext (if guidance_scale > 1 then Doubled latents latents else Single latents) t"

text \<open>Lines 223 to 248: the vanilla branch runs in the steps with \<open>i < ndcfg_tau\<close> only.\<close>

definition vanilla_branch ::
  "('x, 'f) externals \<Rightarrow> config \<Rightarrow> nat \<Rightarrow> 'x batch \<Rightarrow> int \<Rightarrow> 'f pipeline
     \<Rightarrow> 'f pipeline \<times> (py_error + 'x batch option)" where
  "vanilla_branch ext cfg i input t st =
     (if int i < ndcfg_tau cfg then
        (case run_branch ext cfg (ndcfg_dilate_settings cfg) (ndcfg_tau cfg) i (vanilla_slot cfg i)
                input t st of
           (st', Inl e) \<Rightarrow> (st', Inl e)
         | (st', Inr v) \<Rightarrow> (st', Inr (Some v)))
      else (st, Inr None))"

definition denoise_step ::
  "('x::real_vector, 'f) externals \<Rightarrow> config \<Rightarrow> real \<Rightarrow> real \<Rightarrow> nat \<Rightarrow> int \<Rightarrow> 'f pipeline \<Rightarrow> 'x
     \<Rightarrow> 'f pipeline \<times> (py_error + 'x)" where
  "denoise_step ext cfg guidance_scale guidance_rescale i t st latents =
     (let input = latent_model_input ext guidance_scale latents t in
      case run_branch ext cfg (dilate_settings cfg) (dilate_tau cfg) i (adapted_slot cfg i)
             input t st of
        (st1, Inl e) \<Rightarrow> (st1, Inl e)
      | (st1, Inr noise_pred) \<Rightarrow>
          (case vanilla_branch ext cfg i input t st1 of
             (st2, Inl e) \<Rightarrow> (st2, Inl e)
           | (st2, Inr noise_pred_vanilla) \<Rightarrow>
               (case combined_noise ext cfg guidance_scale guidance_rescale i noise_pred
                       noise_pred_vanilla of
                  Inl e \<Rightarrow> (st2, Inl e)
                | Inr estimate \<Rightarrow> (st2, Inr (scheduler_step ext estimate t latents)))))"

text \<open>
  Line 191, \<open>for i, t in enumerate(timesteps)\<close>, from index \<open>i\<close> on. The result lists the
  latents after every step. Lines 266 to 270 report progress and call \<open>callback\<close>, which
  is \<open>None\<close> in \<open>main\<close>; they assign neither the latents nor a network and are left out.
\<close>

fun denoising_loop ::
  "('x::real_vector, 'f) externals \<Rightarrow> config \<Rightarrow> real \<Rightarrow> real \<Rightarrow> nat \<Rightarrow> int list \<Rightarrow> 'f pipeline \<Rightarrow> 'x
     \<Rightarrow> 'f pipeline \<times> (py_error + 'x list)" where
  "denoising_loop ext cfg guidance_scale guidance_rescale i [] st latents = (st, Inr [])"
| "denoising_loop ext cfg guidance_scale guidance_rescale i (t # ts) st latents =
     (case denoise_step ext cfg guidance_scale guidance_rescale i t st latents of
        (st', Inl e) \<Rightarrow> (st', Inl e)
      | (st', Inr latents') \<Rightarrow>
          (case denoising_loop ext cfg guidance_scale guidance_rescale (Suc i) ts st' latents' of
             (st'', Inl e) \<Rightarrow> (st'', Inl e)
           | (st'', Inr rest) \<Rightarrow> (st'', Inr (latents' # rest))))"

text \<open>
  Lines 180 to 264 of one call of \<open>forward\<close> on the pipeline whose \<open>self.unet\<close> is
  \<open>net\<close>: the network copies are local to the call, \<open>self.unet\<close> outlives it.
\<close>

definition forward_latents ::
  "('x::real_vector, 'f) externals \<Rightarrow> config \<Rightarrow> real \<Rightarrow> real \<Rightarrow> int list \<Rightarrow> 'f network \<Rightarrow> 'x
     \<Rightarrow> 'f network \<times> (py_error + 'x list)" where
  "forward_latents ext cfg guidance_scale guidance_rescale timesteps net latents =
     (case denoising_loop ext cfg guidance_scale guidance_rescale 0 timesteps
             (prepare_networks ext cfg net) latents of
        (st, r) \<Rightarrow> (unet st, r))"

subsection \<open>Well-formed networks\<close>

text \<open>Every network of the pipeline enumerates each qualified module name once.\<close>

definition unique_names :: "'f pipeline \<Rightarrow> bool" where
  "unique_names st =
     (distinct (map fst (unet st)) \<and>
      (case unet_inflate st of None \<Rightarrow> True | Some net \<Rightarrow> distinct (map fst net)) \<and>
      (case unet_inflate_vanilla st of None \<Rightarrow> True | Some net \<Rightarrow> distinct (map fst net)))"

subsection \<open>A small pipeline for concrete runs\<close>

text \<open>
  A network of two modules, the root and one convolution, with stand-ins for the
  collaborators: the prediction of \<open>example_unet\<close> depends on the dilation rates that are
  installed and active when it is called, \<open>failing_unet\<close> always raises.
\<close>

definition example_network :: "nat network" where
  "example_network = [([], Native 0), (''conv'', Native 1)]"

definition example_config :: config where
  "example_config =
     \<lparr> ndcfg_tau = 0, dilate_tau = 10, inflate_tau = 0,
       dilate_settings = Some [''conv'' \<mapsto> 4],
       inflate_settings = Some [''conv''],
       ndcfg_dilate_settings = Some [''conv'' \<mapsto> 2],
       transform = None, progressive = False \<rparr>"

text \<open>A progressive schedule on which double rounding shows: base rate 25, window 25.\<close>

definition rounding_config :: config where
  "rounding_config =
     example_config\<lparr>dilate_tau := 25, dilate_settings := Some [''conv'' \<mapsto> 25],
                     progressive := True\<rparr>"

definition installed_dilation :: "'f network \<Rightarrow> real" where
  "installed_dilation net =
     sum_list (map (\<lambda>(name, fwd). case fwd of Native f \<Rightarrow> 0
                      | ReDilateConvProcessor m d a \<Rightarrow> if a then d else 0) net)"

definition example_unet :: "nat network \<Rightarrow> real batch \<Rightarrow> int \<Rightarrow> py_error + real batch" where
  "example_unet net input t =
     Inr (case input of
            Single x \<Rightarrow> Single (x + installed_dilation net)
          | Doubled u c \<Rightarrow> Doubled (u + installed_dilation net) (c + 2 * installed_dilation net))"

definition failing_unet :: "nat network \<Rightarrow> real batch \<Rightarrow> int \<Rightarrow> py_error + real batch" where
  "failing_unet net input t = Inl NetworkError"

definition example_externals :: "(real, nat) externals" where
  "example_externals =
     \<lparr> unet_call = example_unet,
       scale_model_input = (\<lambda>input t. input),
       scheduler_step = (\<lambda>noise t latents.
          case noise of Single e \<Rightarrow> latents - e | Doubled u c \<Rightarrow> latents - u),
       rescale_noise_cfg = (\<lambda>g text r. (1 - r) * g + r * text),
       inflate_kernels = (\<lambda>net names tr.
          map (\<lambda>(name, fwd). if name \<in> set names
                 then (name, case fwd of Native k \<Rightarrow> Native (k + 100) | p \<Rightarrow> p)
                 else (name, fwd)) net) \<rparr>"

definition failing_externals :: "(real, nat) externals" where
  "failing_externals = example_externals\<lparr>unet_call := failing_unet\<rparr>"

definition example_pipeline :: "nat pipeline" where
  "example_pipeline = prepare_networks example_externals example_config example_network"

section \<open>Properties\<close>

subsection \<open>Double arithmetic\<close>

lemma round_even_of_int [simp]: "round_even (real_of_int n) = n"
  by (simp add: round_even_def)

lemma round_even_bounds: "\<lfloor>y\<rfloor> \<le> round_even y \<and> round_even y \<le> \<lfloor>y\<rfloor> + 1"
  by (simp add: round_even_def Let_def)

lemma round_even_mono:
  assumes "x \<le> y"
  shows "round_even x \<le> round_even y"
proof (cases "\<lfloor>x\<rfloor> = \<lfloor>y\<rfloor>")
  case True
  have "x - real_of_int \<lfloor>y\<rfloor> \<le> y - real_of_int \<lfloor>y\<rfloor>" using assms by simp
  then show ?thesis
    by (simp add: round_even_def Let_def True)
next
  case False
  with assms have "\<lfloor>x\<rfloor> < \<lfloor>y\<rfloor>" by (simp add: floor_mono order.strict_iff_order)
  then have "round_even x \<le> \<lfloor>y\<rfloor>" using round_even_bounds[of x] by linarith
  then show ?thesis using round_even_bounds[of y] by linarith
qed

lemma round_even_minus: "round_even (- y) = - round_even y"
proof (cases "y \<in> \<int>")
  case True
  then obtain n where "y = real_of_int n" by (auto elim: Ints_cases)
  then have "- y = real_of_int (- n)" by simp
  then show ?thesis unfolding \<open>y = real_of_int n\<close>
    by (metis round_even_of_int of_int_minus)
next
  case False
  then have ne: "y \<noteq> real_of_int \<lfloor>y\<rfloor>"
    by (metis Ints_of_int)
  then have fl: "\<lfloor>- y\<rfloor> = - \<lfloor>y\<rfloor> - 1"
    by (simp add: floor_minus ceiling_altdef)
  have *: "- y - real_of_int (- \<lfloor>y\<rfloor> - 1) = 1 - (y - real_of_int \<lfloor>y\<rfloor>)"
    by simp
  show ?thesis
    unfolding round_even_def Let_def fl *
    by auto
qed

lemma round_even_0 [simp]: "round_even 0 = 0"
  by (simp add: round_even_def)

lemma round_even_nonneg: "0 \<le> y \<Longrightarrow> 0 \<le> round_even y"
  using round_even_mono[of 0 y] by simp


lemma floor_log2_bounds:
  assumes "0 < x"
  shows "2 powi \<lfloor>log 2 x\<rfloor> \<le> x" and "x < 2 powi (\<lfloor>log 2 x\<rfloor> + 1)"
proof -
  have "real_of_int \<lfloor>log 2 x\<rfloor> \<le> log 2 x" by simp
  then have "2 powr real_of_int \<lfloor>log 2 x\<rfloor> \<le> x"
    using assms by (simp add: powr_le_iff)
  then show "2 powi \<lfloor>log 2 x\<rfloor> \<le> x"
    by (simp add: powr_real_of_int')
  have "log 2 x < real_of_int (\<lfloor>log 2 x\<rfloor> + 1)" by linarith
  then have "x < 2 powr real_of_int (\<lfloor>log 2 x\<rfloor> + 1)"
    using assms by (simp only: less_powr_iff[of 2 x, OF _ assms] one_less_numeral_iff semiring_norm)
  then show "x < 2 powi (\<lfloor>log 2 x\<rfloor> + 1)"
    by (simp only: powr_real_of_int'[of 2, simplified])
qed

lemma floor_log2_eqI:
  assumes "2 powi e \<le> x" and "x < 2 powi (e + 1)"
  shows "\<lfloor>log 2 x\<rfloor> = e"
proof -
  have "0 < (2::real) powi e" by simp
  with assms(1) have pos: "0 < x" by linarith
  have "2 powr real_of_int e \<le> x" using assms(1) by (simp add: powr_real_of_int')
  then have a: "real_of_int e \<le> log 2 x" using pos by (simp add: powr_le_iff)
  have "x < 2 powr real_of_int (e + 1)" using assms(2) by (simp only: powr_real_of_int'[of 2, simplified])
  then have b: "log 2 x < real_of_int (e + 1)"
    using pos by (simp only: less_powr_iff[of 2 x, OF _ pos] one_less_numeral_iff semiring_norm)
  from a b show ?thesis by (simp add: floor_eq_iff)
qed


lemma float_exponent_minus [simp]: "float_exponent (- x) = float_exponent x"
  by (simp add: float_exponent_def)

lemma round_double_minus: "round_double (- x) = - round_double x"
  by (simp add: round_double_def Let_def round_even_minus)

lemma round_double_0 [simp]: "round_double 0 = 0"
  by (simp add: round_double_def Let_def)

lemma float_exponent_eqI:
  assumes "2 powi e \<le> \<bar>x\<bar>" and "\<bar>x\<bar> < 2 powi (e + 1)" and "- 1022 \<le> e"
  shows "float_exponent x = e"
  using floor_log2_eqI[OF assms(1,2)] assms(3) by (simp add: float_exponent_def)

lemma float_exponent_upper:
  assumes "0 < x"
  shows "x < 2 powi (float_exponent x + 1)"
proof -
  have "x < 2 powi (\<lfloor>log 2 x\<rfloor> + 1)" using floor_log2_bounds(2)[OF assms] .
  also have "\<dots> \<le> 2 powi (float_exponent x + 1)"
    using assms by (intro power_int_increasing) (simp_all add: float_exponent_def)
  finally show ?thesis .
qed

lemma float_exponent_mono:
  assumes "0 < x" and "x \<le> y"
  shows "float_exponent x \<le> float_exponent y"
proof -
  have "log 2 x \<le> log 2 y" using assms by (intro log_mono) simp_all
  then have "\<lfloor>log 2 x\<rfloor> \<le> \<lfloor>log 2 y\<rfloor>" by (rule floor_mono)
  then show ?thesis using assms by (simp add: float_exponent_def)
qed

lemma ulp_times: "2 powi (e - 52) * 2 ^ 53 = (2::real) powi (e + 1)"
proof -
  have "(2::real) powi (e - 52) * 2 powi 53 = 2 powi (e - 52 + 53)"
    by (subst power_int_add) simp_all
  then show ?thesis by (simp add: ac_simps)
qed

lemma ulp_times': "2 powi (e - 52) * 2 ^ 52 = (2::real) powi e"
proof -
  have "(2::real) powi (e - 52) * 2 powi 52 = 2 powi (e - 52 + 52)"
    by (subst power_int_add) simp_all
  then show ?thesis by simp
qed

lemma round_double_upper:
  assumes "0 < x"
  shows "round_double x \<le> 2 powi (float_exponent x + 1)"
proof -
  let ?u = "(2::real) powi (float_exponent x - 52)"
  have u: "0 < ?u" by simp
  have "x < ?u * 2 ^ 53" using float_exponent_upper[OF assms] by (simp only: ulp_times)
  then have "x / ?u \<le> real_of_int (2 ^ 53)" using u by (simp add: pos_divide_le_eq mult.commute)
  then have "round_even (x / ?u) \<le> round_even (real_of_int (2 ^ 53))" by (rule round_even_mono)
  then have "round_even (x / ?u) \<le> 2 ^ 53" by (simp only: round_even_of_int)
  then have "real_of_int (round_even (x / ?u)) \<le> 2 ^ 53"
    by (metis of_int_le_iff of_int_numeral of_int_power)
  then have "?u * real_of_int (round_even (x / ?u)) \<le> ?u * 2 ^ 53"
    using u by (simp only: mult_le_cancel_left_pos)
  then show ?thesis by (simp only: round_double_def Let_def ulp_times)
qed

lemma round_double_lower:
  assumes "2 powi (float_exponent x) \<le> x"
  shows "2 powi (float_exponent x) \<le> round_double x"
proof -
  let ?u = "(2::real) powi (float_exponent x - 52)"
  have u: "0 < ?u" by simp
  have "?u * 2 ^ 52 \<le> x" using assms by (simp only: ulp_times')
  then have "real_of_int (2 ^ 52) \<le> x / ?u" using u by (simp add: pos_le_divide_eq mult.commute)
  then have "round_even (real_of_int (2 ^ 52)) \<le> round_even (x / ?u)" by (rule round_even_mono)
  then have "2 ^ 52 \<le> round_even (x / ?u)" by (simp only: round_even_of_int)
  then have "2 ^ 52 \<le> real_of_int (round_even (x / ?u))"
    by (metis of_int_le_iff of_int_numeral of_int_power)
  then have "?u * 2 ^ 52 \<le> ?u * real_of_int (round_even (x / ?u))"
    using u by (simp only: mult_le_cancel_left_pos)
  then show ?thesis by (simp only: round_double_def Let_def ulp_times')
qed

lemma round_double_nonneg:
  assumes "0 \<le> x"
  shows "0 \<le> round_double x"
proof -
  have "0 \<le> x / 2 powi (float_exponent x - 52)" using assms by simp
  then have "0 \<le> round_even (x / 2 powi (float_exponent x - 52))" by (rule round_even_nonneg)
  then show ?thesis by (simp add: round_double_def Let_def)
qed

lemma round_double_mono_pos:
  assumes "0 < x" and "x \<le> y"
  shows "round_double x \<le> round_double y"
proof (cases "float_exponent x = float_exponent y")
  case True
  let ?u = "(2::real) powi (float_exponent y - 52)"
  have u: "0 < ?u" by simp
  have "x / ?u \<le> y / ?u" using assms(2) u by (simp add: divide_right_mono)
  then have "round_even (x / ?u) \<le> round_even (y / ?u)" by (rule round_even_mono)
  then have "?u * real_of_int (round_even (x / ?u)) \<le> ?u * real_of_int (round_even (y / ?u))"
    using u by simp
  then show ?thesis by (simp add: round_double_def Let_def True)
next
  case False
  with float_exponent_mono[OF assms] have lt: "float_exponent x < float_exponent y" by simp
  have y: "0 < y" using assms by simp
  have "- 1022 \<le> float_exponent x" by (simp add: float_exponent_def)
  with lt have "float_exponent y = \<lfloor>log 2 \<bar>y\<bar>\<rfloor>" by (simp add: float_exponent_def max_def split: if_splits)
  then have "2 powi (float_exponent y) \<le> y"
    using floor_log2_bounds(1)[OF y] y by simp
  then have low: "2 powi (float_exponent y) \<le> round_double y" by (rule round_double_lower)
  have "round_double x \<le> 2 powi (float_exponent x + 1)" using round_double_upper[OF assms(1)] .
  also have "\<dots> \<le> 2 powi (float_exponent y)"
    using lt by (intro power_int_increasing) simp_all
  finally show ?thesis using low by simp
qed

lemma round_double_mono:
  assumes "x \<le> y"
  shows "round_double x \<le> round_double y"
proof -
  consider "0 < x" | "x \<le> 0" "0 \<le> y" | "y < 0" by linarith
  then show ?thesis
  proof cases
    case 1
    then show ?thesis using assms by (rule round_double_mono_pos)
  next
    case 2
    have "0 \<le> round_double (- x)" using 2(1) by (intro round_double_nonneg) simp
    then have "round_double x \<le> 0" by (simp add: round_double_minus)
    moreover have "0 \<le> round_double y" using 2(2) by (rule round_double_nonneg)
    ultimately show ?thesis by simp
  next
    case 3
    have "round_double (- y) \<le> round_double (- x)"
      using 3 assms by (intro round_double_mono_pos) simp_all
    then show ?thesis by (simp add: round_double_minus)
  qed
qed

lemma round_double_exact:
  assumes "float_exponent x = e" and "x / 2 powi (e - 52) = real_of_int n"
  shows "round_double x = x"
proof -
  have "round_double x = 2 powi (e - 52) * real_of_int (round_even (x / 2 powi (e - 52)))"
    by (simp add: round_double_def Let_def assms(1))
  also have "\<dots> = 2 powi (e - 52) * (x / 2 powi (e - 52))"
    by (simp only: assms(2) round_even_of_int)
  also have "\<dots> = x" by simp
  finally show ?thesis .
qed

lemma round_double_abs_le:
  assumes "\<bar>x\<bar> \<le> m" and "round_double m = m"
  shows "\<bar>round_double x\<bar> \<le> m"
proof -
  have "round_double x \<le> round_double m" using assms(1) by (intro round_double_mono) simp
  moreover have "round_double (- m) \<le> round_double x" using assms(1) by (intro round_double_mono) simp
  ultimately show ?thesis using assms(2) by (simp add: round_double_minus abs_le_iff)
qed

lemma round_double_1 [simp]: "round_double 1 = 1"
proof -
  have e: "float_exponent 1 = 0" by (rule float_exponent_eqI) simp_all
  show ?thesis by (rule round_double_exact[OF e, of "2 ^ 52"]) (simp add: power_int_minus field_simps)
qed

lemma round_double_eval:
  assumes "2 powi e \<le> \<bar>x\<bar>" and "\<bar>x\<bar> < 2 powi (e + 1)" and "- 1022 \<le> e"
  shows "round_double x = 2 powi (e - 52) * real_of_int (round_even (x / 2 powi (e - 52)))"
  by (simp add: round_double_def Let_def float_exponent_eqI[OF assms])

lemma round_double_7_25: "round_double (7 / 25) = 1261007895663739 / 4503599627370496"
  by (subst round_double_eval[where e = "- 2"]) (simp_all add: round_even_def)

lemma round_double_25_7_25:
  "round_double (25 * (1261007895663739 / 4503599627370496)) = 7881299347898369 / 1125899906842624"
  by (subst round_double_eval[where e = 2]) (simp_all add: round_even_def)

lemma round_double_4 [simp]: "round_double 4 = 4"
  by (subst round_double_eval[where e = 2]) (simp_all add: round_even_def)

lemma round_double_2 [simp]: "round_double 2 = 2"
  by (subst round_double_eval[where e = 1]) (simp_all add: round_even_def)

lemma round_double_max_double: "round_double max_double = max_double"
proof -
  have e: "float_exponent max_double = 1023"
    by (rule float_exponent_eqI) (simp_all add: max_double_def)
  show ?thesis
    by (rule round_double_exact[OF e, of "2 ^ 53 - 1"]) (simp add: max_double_def)
qed

lemma max_double_less: "max_double < 2 ^ 1024"
  by (simp add: max_double_def)

lemma max_double_nonneg: "0 \<le> max_double"
  by (simp add: max_double_def)

lemma round_double_half:
  assumes "round_double x = x" and "2 powi (- 1021) \<le> \<bar>x\<bar>"
  shows "round_double (x / 2) = x / 2"
proof -
  have "0 < (2::real) powi (- 1021)" by simp
  with assms(2) have "0 < \<bar>x\<bar>" by linarith
  then have x0: "x \<noteq> 0" by simp
  have "2 powr real_of_int (- 1021) \<le> \<bar>x\<bar>"
    using assms(2) by (simp only: powr_real_of_int'[of 2, simplified])
  then have l: "- 1021 \<le> log 2 \<bar>x\<bar>" using x0 by (simp add: powr_le_iff)
  have "log 2 \<bar>x / 2\<bar> = log 2 \<bar>x\<bar> - 1"
    using x0 by (simp add: log_divide)
  then have "\<lfloor>log 2 \<bar>x / 2\<bar>\<rfloor> = \<lfloor>log 2 \<bar>x\<bar>\<rfloor> - 1" by simp
  moreover have "- 1021 \<le> \<lfloor>log 2 \<bar>x\<bar>\<rfloor>" using l by (simp add: le_floor_iff)
  ultimately have e: "float_exponent (x / 2) = float_exponent x - 1"
    by (simp add: float_exponent_def)
  have u: "(2::real) powi (float_exponent x - 1 - 52) = 2 powi (float_exponent x - 52) / 2"
    by (simp add: power_int_diff)
  have q: "x / 2 / (2 powi (float_exponent x - 52) / 2) = x / 2 powi (float_exponent x - 52)"
    by simp
  have "round_double (x / 2) = 2 powi (float_exponent x - 1 - 52)
          * real_of_int (round_even (x / 2 / 2 powi (float_exponent x - 1 - 52)))"
    by (simp only: round_double_def Let_def e)
  also have "\<dots> = 2 powi (float_exponent x - 52) / 2
          * real_of_int (round_even (x / 2 powi (float_exponent x - 52)))"
    by (simp only: u q)
  also have "\<dots> = round_double x / 2"
    by (simp only: round_double_def Let_def times_divide_eq_left)
  finally have "round_double (x / 2) = round_double x / 2" .
  with assms(1) show ?thesis by simp
qed

lemma round_double_31525197391593475:
  "round_double (31525197391593475 / 4503599627370496) = 7881299347898369 / 1125899906842624"
  using round_double_25_7_25 by simp

subsection \<open>The progressive rate\<close>

lemma progressive_dilate_in_window:
  assumes "0 < tau" and "int i < tau" and "\<bar>base\<bar> \<le> max_double"
  shows "progressive_dilate base tau i =
           Inr (real_of_int (max \<lceil>round_double (base * round_double
                  (real_of_int (tau - int i) / real_of_int tau))\<rceil> 2))"
    and "0 \<le> round_double (real_of_int (tau - int i) / real_of_int tau)"
proof -
  let ?q = "real_of_int (tau - int i) / real_of_int tau"
  have q0: "0 \<le> ?q" using assms(1,2) by simp
  have q1: "?q \<le> 1" using assms(1) by simp
  show rq0: "0 \<le> round_double ?q" using q0 by (rule round_double_nonneg)
  have rq1: "\<bar>round_double ?q\<bar> \<le> 1"
    using q0 q1 by (intro round_double_abs_le) simp_all
  have "\<bar>base * round_double ?q\<bar> = \<bar>base\<bar> * \<bar>round_double ?q\<bar>" by (rule abs_mult)
  also have "\<dots> \<le> \<bar>base\<bar> * 1" using rq1 by (intro mult_left_mono) simp_all
  finally have "\<bar>base * round_double ?q\<bar> \<le> max_double" using assms(3) by simp
  then have "\<bar>round_double (base * round_double ?q)\<bar> \<le> max_double"
    using round_double_max_double by (rule round_double_abs_le)
  then have p: "\<not> 2 ^ 1024 \<le> \<bar>round_double (base * round_double ?q)\<bar>"
    using max_double_less by linarith
  have q: "\<not> 2 ^ 1024 \<le> \<bar>round_double ?q\<bar>"
  proof -
    have "(1::real) < 2 ^ 1024" by (rule one_less_power) simp_all
    with rq1 show ?thesis by linarith
  qed
  show "progressive_dilate base tau i =
           Inr (real_of_int (max \<lceil>round_double (base * round_double ?q)\<rceil> 2))"
    using assms(1) p q by (simp add: progressive_dilate_def Let_def)
qed





subsection \<open>Patching and restoring\<close>

lemma patch_forwards_Cons_InrE:
  assumes "patch_forwards cfg settings tau i ((name, fwd) # ms) bk = (ms', Inr bk')"
  obtains
    (skip) ds ms'' where "settings = Some ds" "ds name = None"
      "patch_forwards cfg settings tau i ms bk = (ms'', Inr bk')" "ms' = (name, fwd) # ms''"
  | (patch) ds base d ms'' where "settings = Some ds" "ds name = Some base"
      "layer_dilate cfg tau i name base = Inr d"
      "patch_forwards cfg settings tau i ms (bk(name \<mapsto> fwd)) = (ms'', Inr bk')"
      "ms' = (name, ReDilateConvProcessor name d (int i < tau)) # ms''"
proof (cases settings)
  case None
  with assms show ?thesis by simp
next
  case (Some ds)
  show ?thesis
  proof (cases "ds name")
    case None
    obtain ms'' r where rec: "patch_forwards cfg settings tau i ms bk = (ms'', r)"
      by (cases "patch_forwards cfg settings tau i ms bk")
    with assms Some None have eq: "ms' = (name, fwd) # ms''" and r: "r = Inr bk'" by simp_all
    show ?thesis by (rule skip[OF Some None rec[unfolded r] eq])
  next
    case base: (Some base)
    show ?thesis
    proof (cases "layer_dilate cfg tau i name base")
      case (Inl e)
      with assms Some base show ?thesis by simp
    next
      case (Inr d)
      obtain ms'' r where rec: "patch_forwards cfg settings tau i ms (bk(name \<mapsto> fwd)) = (ms'', r)"
        by (cases "patch_forwards cfg settings tau i ms (bk(name \<mapsto> fwd))")
      with assms Some base Inr
      have eq: "ms' = (name, ReDilateConvProcessor name d (int i < tau)) # ms''" and r: "r = Inr bk'"
        by simp_all
      show ?thesis by (rule patch[OF Some base Inr rec[unfolded r] eq])
    qed
  qed
qed

lemma patch_forwards_backup_other:
  "patch_forwards cfg settings tau i ms bk = (ms', Inr bk') \<Longrightarrow> n \<notin> fst ` set ms \<Longrightarrow> bk' n = bk n"
proof (induction ms arbitrary: bk ms')
  case Nil
  then show ?case by simp
next
  case (Cons m ms)
  obtain name fwd where m: "m = (name, fwd)" by (cases m)
  from Cons.prems(2) have ne: "n \<noteq> name" and nin: "n \<notin> fst ` set ms" by (auto simp: m)
  from Cons.prems(1)[unfolded m] show ?case
  proof (cases rule: patch_forwards_Cons_InrE)
    case (skip ds ms'')
    from Cons.IH[OF skip(3) nin] show ?thesis .
  next
    case (patch ds base d ms'')
    from Cons.IH[OF patch(4) nin] ne show ?thesis by simp
  qed
qed

lemma restore_after_patch:
  "patch_forwards cfg settings tau i ms bk = (ms', Inr bk') \<Longrightarrow> distinct (map fst ms)
     \<Longrightarrow> \<forall>n \<in> fst ` set ms. bk n = None \<Longrightarrow> restore_forwards bk' ms' = ms"
proof (induction ms arbitrary: bk ms')
  case Nil
  then show ?case by (simp add: restore_forwards_def)
next
  case (Cons m ms)
  obtain name fwd where m: "m = (name, fwd)" by (cases m)
  from Cons.prems(2) have nin: "name \<notin> fst ` set ms" and dist: "distinct (map fst ms)"
    by (auto simp: m)
  from Cons.prems(3) have bkn: "bk name = None" and bkr: "\<forall>n \<in> fst ` set ms. bk n = None"
    by (simp_all add: m)
  from Cons.prems(1)[unfolded m] show ?case
  proof (cases rule: patch_forwards_Cons_InrE)
    case (skip ds ms'')
    have "bk' name = None" using patch_forwards_backup_other[OF skip(3) nin] bkn by simp
    moreover have "restore_forwards bk' ms'' = ms" using Cons.IH[OF skip(3) dist bkr] .
    ultimately show ?thesis using skip(4) by (simp add: m restore_forwards_def)
  next
    case (patch ds base d ms'')
    have "bk' name = Some fwd" using patch_forwards_backup_other[OF patch(4) nin] by simp
    moreover have "\<forall>n \<in> fst ` set ms. (bk(name \<mapsto> fwd)) n = None"
      using bkr nin by auto
    then have "restore_forwards bk' ms'' = ms" using Cons.IH[OF patch(4) dist] by simp
    ultimately show ?thesis using patch(5) by (simp add: m restore_forwards_def)
  qed
qed

lemma patch_forwards_entries:
  "patch_forwards cfg settings tau i ms bk = (ms', Inr bk') \<Longrightarrow>
   length ms' = length ms \<and>
   (\<forall>k < length ms. fst (ms' ! k) = fst (ms ! k) \<and>
      (\<forall>ds. settings = Some ds \<longrightarrow>
         (ds (fst (ms ! k)) = None \<longrightarrow> snd (ms' ! k) = snd (ms ! k)) \<and>
         (\<forall>base. ds (fst (ms ! k)) = Some base \<longrightarrow>
            (\<exists>d. layer_dilate cfg tau i (fst (ms ! k)) base = Inr d \<and>
                 snd (ms' ! k) = ReDilateConvProcessor (fst (ms ! k)) d (int i < tau)))))"
proof (induction ms arbitrary: bk ms')
  case Nil
  then show ?case by simp
next
  case (Cons m ms)
  obtain name fwd where m: "m = (name, fwd)" by (cases m)
  from Cons.prems(1)[unfolded m] show ?case
  proof (cases rule: patch_forwards_Cons_InrE)
    case (skip ds ms'')
    from Cons.IH[OF skip(3)] skip(1,2,4) show ?thesis
      by (simp add: m nth_Cons split: nat.splits)
  next
    case (patch ds base d ms'')
    from Cons.IH[OF patch(4)] patch(1,2,3,5) show ?thesis
      by (simp add: m nth_Cons split: nat.splits)
  qed
qed

lemma patch_forwards_succeeds:
  "\<forall>n \<in> fst ` set ms. \<forall>base. ds n = Some base \<longrightarrow> (\<exists>d. layer_dilate cfg tau i n base = Inr d)
   \<Longrightarrow> \<exists>ms' bk'. patch_forwards cfg (Some ds) tau i ms bk = (ms', Inr bk')"
proof (induction ms arbitrary: bk)
  case Nil
  then show ?case by simp
next
  case (Cons m ms)
  obtain name fwd where m: "m = (name, fwd)" by (cases m)
  have rest: "\<forall>n \<in> fst ` set ms. \<forall>base. ds n = Some base \<longrightarrow> (\<exists>d. layer_dilate cfg tau i n base = Inr d)"
    using Cons.prems by simp
  show ?case
  proof (cases "ds name")
    case None
    from Cons.IH[OF rest, of bk] obtain ms' bk' where
      "patch_forwards cfg (Some ds) tau i ms bk = (ms', Inr bk')" by blast
    then show ?thesis by (simp add: m None)
  next
    case (Some base)
    then obtain d where d: "layer_dilate cfg tau i name base = Inr d"
      using Cons.prems by (auto simp: m)
    from Cons.IH[OF rest, of "bk(name \<mapsto> fwd)"] obtain ms' bk' where
      "patch_forwards cfg (Some ds) tau i ms (bk(name \<mapsto> fwd)) = (ms', Inr bk')" by blast
    then show ?thesis by (simp add: m Some d)
  qed
qed

lemma patch_forwards_map_of:
  "patch_forwards cfg (Some ds) tau i ms bk = (ms', Inr bk') \<Longrightarrow> name \<in> fst ` set ms
     \<Longrightarrow> ds name = Some base
     \<Longrightarrow> \<exists>d. layer_dilate cfg tau i name base = Inr d \<and>
            map_of ms' name = Some (ReDilateConvProcessor name d (int i < tau))"
proof (induction ms arbitrary: bk ms')
  case Nil
  then show ?case by simp
next
  case (Cons m ms)
  obtain n fwd where m: "m = (n, fwd)" by (cases m)
  from Cons.prems(1)[unfolded m] show ?case
  proof (cases rule: patch_forwards_Cons_InrE)
    case (skip ds' ms'')
    then have ne: "n \<noteq> name" using Cons.prems(3) by auto
    with Cons.prems(2) have "name \<in> fst ` set ms" by (auto simp: m)
    from Cons.IH[OF skip(3)[unfolded skip(1)[symmetric]] this Cons.prems(3)] ne skip(4)
    show ?thesis by simp
  next
    case (patch ds' base' d ms'')
    show ?thesis
    proof (cases "n = name")
      case True
      with patch Cons.prems(3) show ?thesis by auto
    next
      case False
      with Cons.prems(2) have "name \<in> fst ` set ms" by (auto simp: m)
      from Cons.IH[OF patch(4)[unfolded patch(1)[symmetric]] this Cons.prems(3)] False patch(5)
      show ?thesis by simp
    qed
  qed
qed

lemma layer_dilate_in_window:
  assumes "0 < tau" and "int i < tau" and "\<bar>base\<bar> \<le> max_double"
    and "inflate_settings cfg = Some names"
  shows "layer_dilate cfg tau i name base =
           Inr (let rate = (if progressive cfg
                            then real_of_int (max \<lceil>round_double (base * round_double
                                   (real_of_int (tau - int i) / real_of_int tau))\<rceil> 2)
                            else base)
                in if int i < inflate_tau cfg \<and> name \<in> set names
                   then round_double (rate / 2) else rate)"
  by (simp add: layer_dilate_def inflate_halve_def Let_def assms(4)
        progressive_dilate_in_window(1)[OF assms(1,2,3)])

subsection \<open>One branch\<close>

lemma set_net_get_net: "get_net st s = Some net \<Longrightarrow> set_net st s net = st"
  by (cases s) (simp_all add: get_net_def set_net_def)

lemma run_branch_patched:
  assumes "get_net st s = Some net"
    and "patch_forwards cfg settings tau i net Map.empty = (net', Inr backup)"
  shows "run_branch ext cfg settings tau i s input t st =
     (case unet_call ext net' input t of
        Inl e \<Rightarrow> (set_net st s net', Inl e)
      | Inr sample \<Rightarrow> (set_net st s (restore_forwards backup net'), Inr sample))"
  using assms by (simp add: run_branch_def)

lemma run_branch_InrE:
  assumes "run_branch ext cfg settings tau i s input t st = (st', Inr sample)"
  obtains net net' backup where "get_net st s = Some net"
    "patch_forwards cfg settings tau i net Map.empty = (net', Inr backup)"
    "unet_call ext net' input t = Inr sample"
    "st' = set_net st s (restore_forwards backup net')"
proof (cases "get_net st s")
  case None
  with assms show ?thesis by (simp add: run_branch_def)
next
  case (Some net)
  obtain net' r where p: "patch_forwards cfg settings tau i net Map.empty = (net', r)"
    by (cases "patch_forwards cfg settings tau i net Map.empty")
  show ?thesis
  proof (cases r)
    case (Inl e)
    with assms Some p show ?thesis by (simp add: run_branch_def)
  next
    case (Inr backup)
    show ?thesis
    proof (cases "unet_call ext net' input t")
      case (Inl e)
      with assms Some p Inr show ?thesis by (simp add: run_branch_def)
    next
      case call: (Inr sample')
      with assms Some p Inr have "sample' = sample"
        "st' = set_net st s (restore_forwards backup net')"
        by (simp_all add: run_branch_def)
      with that[OF Some p[unfolded Inr]] call show ?thesis by simp
    qed
  qed
qed

lemma run_branch_restores:
  assumes "run_branch ext cfg settings tau i s input t st = (st', Inr sample)"
    and "\<And>net. get_net st s = Some net \<Longrightarrow> distinct (map fst net)"
  shows "st' = st"
  using assms(1)
proof (cases rule: run_branch_InrE)
  case (1 net net' backup)
  have "restore_forwards backup net' = net"
    using restore_after_patch[OF 1(2) assms(2)[OF 1(1)]] by simp
  with 1(1,4) show ?thesis by (simp add: set_net_get_net)
qed

lemma unique_names_get_net:
  "unique_names st \<Longrightarrow> get_net st s = Some net \<Longrightarrow> distinct (map fst net)"
  by (cases s) (auto simp: unique_names_def get_net_def split: option.splits)

subsection \<open>One step and the loop\<close>

lemma vanilla_branch_InrE:
  assumes "vanilla_branch ext cfg i input t st = (st', Inr v)"
  obtains (skipped) "\<not> int i < ndcfg_tau cfg" "st' = st" "v = None"
  | (ran) sample where "int i < ndcfg_tau cfg" "v = Some sample"
      "run_branch ext cfg (ndcfg_dilate_settings cfg) (ndcfg_tau cfg) i (vanilla_slot cfg i)
         input t st = (st', Inr sample)"
proof (cases "int i < ndcfg_tau cfg")
  case False
  with assms show ?thesis by (intro skipped) (simp_all add: vanilla_branch_def)
next
  case True
  obtain st'' r where rb:
    "run_branch ext cfg (ndcfg_dilate_settings cfg) (ndcfg_tau cfg) i (vanilla_slot cfg i)
       input t st = (st'', r)"
    by (cases "run_branch ext cfg (ndcfg_dilate_settings cfg) (ndcfg_tau cfg) i
                 (vanilla_slot cfg i) input t st")
  show ?thesis
  proof (cases r)
    case (Inl e)
    with assms True rb show ?thesis by (simp add: vanilla_branch_def)
  next
    case (Inr sample)
    with assms True rb have "st'' = st'" "v = Some sample" by (simp_all add: vanilla_branch_def)
    with ran[OF True] rb Inr show ?thesis by simp
  qed
qed

lemma denoise_step_InrE:
  assumes "denoise_step ext cfg guidance_scale guidance_rescale i t st latents = (st', Inr latents')"
  obtains st1 noise_pred noise_pred_vanilla estimate where
    "run_branch ext cfg (dilate_settings cfg) (dilate_tau cfg) i (adapted_slot cfg i)
       (latent_model_input ext guidance_scale latents t) t st = (st1, Inr noise_pred)"
    "vanilla_branch ext cfg i (latent_model_input ext guidance_scale latents t) t st1
       = (st', Inr noise_pred_vanilla)"
    "combined_noise ext cfg guidance_scale guidance_rescale i noise_pred noise_pred_vanilla
       = Inr estimate"
    "latents' = scheduler_step ext estimate t latents"
proof -
  let ?input = "latent_model_input ext guidance_scale latents t"
  obtain st1 r1 where a:
    "run_branch ext cfg (dilate_settings cfg) (dilate_tau cfg) i (adapted_slot cfg i) ?input t st
       = (st1, r1)"
    by (cases "run_branch ext cfg (dilate_settings cfg) (dilate_tau cfg) i (adapted_slot cfg i)
                 ?input t st")
  show ?thesis
  proof (cases r1)
    case (Inl e)
    with assms a show ?thesis by (simp add: denoise_step_def)
  next
    case r1: (Inr noise_pred)
    obtain st2 r2 where v: "vanilla_branch ext cfg i ?input t st1 = (st2, r2)"
      by (cases "vanilla_branch ext cfg i ?input t st1")
    show ?thesis
    proof (cases r2)
      case (Inl e)
      with assms a r1 v show ?thesis by (simp add: denoise_step_def)
    next
      case r2: (Inr noise_pred_vanilla)
      show ?thesis
      proof (cases "combined_noise ext cfg guidance_scale guidance_rescale i noise_pred
                      noise_pred_vanilla")
        case (Inl e)
        with assms a r1 v r2 show ?thesis by (simp add: denoise_step_def)
      next
        case c: (Inr estimate)
        with assms a r1 v r2 have "st2 = st'" "latents' = scheduler_step ext estimate t latents"
          by (simp_all add: denoise_step_def)
        with that[OF a[unfolded r1] _ c] v r2 show ?thesis by simp
      qed
    qed
  qed
qed

lemma denoise_step_restores:
  assumes "unique_names st"
    and "denoise_step ext cfg guidance_scale guidance_rescale i t st latents = (st', Inr latents')"
  shows "st' = st"
  using assms(2)
proof (cases rule: denoise_step_InrE)
  case (1 st1 noise_pred noise_pred_vanilla estimate)
  have st1: "st1 = st"
    using run_branch_restores[OF 1(1)] unique_names_get_net[OF assms(1)] by blast
  from 1(2) show ?thesis
  proof (cases rule: vanilla_branch_InrE)
    case skipped
    with st1 show ?thesis by simp
  next
    case (ran sample)
    have "st' = st1"
      using run_branch_restores[OF ran(3)] unique_names_get_net[OF assms(1)] st1 by blast
    with st1 show ?thesis by simp
  qed
qed

lemmas example_defs =
  example_network_def example_config_def example_externals_def failing_externals_def
  example_pipeline_def example_unet_def failing_unet_def installed_dilation_def
  prepare_networks_def inflated_copy_def

lemmas loop_defs =
  denoise_step_def run_branch_def vanilla_branch_def combined_noise_def perform_guidance_def
  latent_model_input_def chunk2_def get_net_def set_net_def adapted_slot_def vanilla_slot_def
  restore_forwards_def layer_dilate_def inflate_halve_def progressive_dilate_def
  forward_latents_def unique_names_def

section \<open>The claims\<close>

subsection \<open>C1: an error in the invocation\<close>

text \<open>
  Claim C1, as stated: if the network invocation between patch and unpatch raises, every
  layer whose forward computation was replaced for that invocation is still restored before
  the error propagates. The loop body has no \<open>try\<close>: in the example pipeline, whose
  invocation raises, the call of \<open>forward\<close> ends with the error while \<open>conv\<close> of
  \<open>self.unet\<close> still carries the processor installed for the invocation.
\<close>

theorem invocation_error_keeps_patch_counterexample:
  "forward_latents failing_externals example_config 7.5 0 [999] example_network 0
     = ([([], Native 0), (''conv'', ReDilateConvProcessor ''conv'' 4 True)], Inl NetworkError)
   \<and> map_of example_network ''conv'' = Some (Native 1)"
  by (simp add: example_defs loop_defs)

text \<open>
  Claim C1, amended: on either branch, at every step and for every configured layer, if the
  network invocation between patch and unpatch returns, every layer whose forward computation
  was replaced for that invocation is restored to its original forward computation; if the
  invocation raises, the error propagates at once and the network keeps the forward
  computations installed for the invocation.
\<close>

theorem branch_restores_on_return_only:
  assumes "get_net st s = Some net" and "distinct (map fst net)"
    and "patch_forwards cfg settings tau i net Map.empty = (net', Inr backup)"
  shows "(\<forall>sample. unet_call ext net' input t = Inr sample \<longrightarrow>
            run_branch ext cfg settings tau i s input t st = (st, Inr sample))
       \<and> (\<forall>e. unet_call ext net' input t = Inl e \<longrightarrow>
            run_branch ext cfg settings tau i s input t st = (set_net st s net', Inl e))"
proof -
  have "restore_forwards backup net' = net"
    using restore_after_patch[OF assms(3) assms(2)] by simp
  then have "set_net st s (restore_forwards backup net') = st"
    using assms(1) by (simp add: set_net_get_net)
  then show ?thesis
    by (simp add: run_branch_patched[OF assms(1) assms(3)])
qed

theorem branch_restores_on_return_only_witness:
  "run_branch example_externals example_config (dilate_settings example_config)
     (dilate_tau example_config) 0 SelfUnet (Single 0) 999 example_pipeline
     = (example_pipeline, Inr (Single 4))
   \<and> run_branch failing_externals example_config (dilate_settings example_config)
     (dilate_tau example_config) 0 SelfUnet (Single 0) 999 example_pipeline
     = (example_pipeline\<lparr>unet := [([], Native 0), (''conv'', ReDilateConvProcessor ''conv'' 4 True)]\<rparr>,
        Inl NetworkError)"
proof -
  let ?net' = "[([], Native 0), (''conv'', ReDilateConvProcessor ''conv'' 4 True)] :: nat network"
  have g: "get_net example_pipeline SelfUnet = Some example_network"
    by (simp add: example_defs loop_defs)
  have d: "distinct (map fst example_network)"
    by (simp add: example_defs)
  have p: "patch_forwards example_config (dilate_settings example_config)
             (dilate_tau example_config) 0 example_network Map.empty
             = (?net', Inr [''conv'' \<mapsto> Native 1])"
    by (simp add: example_defs loop_defs)
  have a: "unet_call example_externals ?net' (Single 0) 999 = Inr (Single 4)"
    by (simp add: example_defs)
  have b: "unet_call failing_externals ?net' (Single 0) 999 = Inl NetworkError"
    by (simp add: example_defs)
  from branch_restores_on_return_only[OF g d p, of example_externals "Single 0" 999] a
  have 1: "run_branch example_externals example_config (dilate_settings example_config)
     (dilate_tau example_config) 0 SelfUnet (Single 0) 999 example_pipeline
     = (example_pipeline, Inr (Single 4))" by blast
  from branch_restores_on_return_only[OF g d p, of failing_externals "Single 0" 999] b
  have 2: "run_branch failing_externals example_config (dilate_settings example_config)
     (dilate_tau example_config) 0 SelfUnet (Single 0) 999 example_pipeline
     = (set_net example_pipeline SelfUnet ?net', Inl NetworkError)" by blast
  from 1 2 show ?thesis by (simp add: set_net_def)
qed

subsection \<open>C5: the rate that is applied\<close>

text \<open>
  Claim C5, as stated: at every step \<open>i < dilate_tau\<close> and for every layer named in the
  dilation settings, the rate applied to the layer is the base rate when \<open>progressive\<close> is
  off and \<open>max(ceil(base * (dilate_tau - i) / dilate_tau), 2)\<close> when it is on, divided by 2
  when moreover \<open>i < inflate_tau\<close> and the layer is listed in the inflation settings. With
  base rate 25 and \<open>dilate_tau = 25\<close> the formula gives \<open>max(ceil(7), 2) = 7\<close> at step 18.
  Line 203 rounds the quotient \<open>7 / 25\<close> to a float first, and the product of 25 and
  that float rounds to a float above 7: the processor installed on \<open>conv\<close> has rate 8.
\<close>

theorem applied_rate_rounding_counterexample:
  "int 18 < dilate_tau rounding_config
   \<and> map_of (fst (patch_forwards rounding_config (dilate_settings rounding_config)
                    (dilate_tau rounding_config) 18 example_network Map.empty)) ''conv''
       = Some (ReDilateConvProcessor ''conv'' 8 True)
   \<and> real_of_int (max \<lceil>(25::real) * real_of_int (25 - int 18) / real_of_int 25\<rceil> 2) = 7"
  by (simp add: rounding_config_def example_defs loop_defs round_double_7_25
        round_double_31525197391593475)

text \<open>
  Claim C5, amended: at every step \<open>i < dilate_tau\<close> and for every layer named in the
  dilation settings (finite rates), the processor installed on the layer is active and its
  rate is the base rate when \<open>progressive\<close> is off and
  \<open>max(ceil(base * ((dilate_tau - i) / dilate_tau)), 2)\<close> when it is on, where the quotient
  and then the product are each rounded to the nearest float before the ceiling is taken;
  when moreover \<open>i < inflate_tau\<close> and the layer is listed in the inflation settings, that
  rate is divided by 2, a float division.
\<close>

theorem applied_dilation_rate:
  assumes "dilate_settings cfg = Some ds" and "inflate_settings cfg = Some names"
    and "int i < dilate_tau cfg" and "ds name = Some base" and "name \<in> fst ` set net"
    and "\<forall>n b. ds n = Some b \<longrightarrow> \<bar>b\<bar> \<le> max_double"
  shows "\<exists>net' backup.
           patch_forwards cfg (dilate_settings cfg) (dilate_tau cfg) i net Map.empty
             = (net', Inr backup) \<and>
           map_of net' name = Some (ReDilateConvProcessor name
             (let rate = (if progressive cfg
                          then real_of_int (max \<lceil>round_double (base * round_double
                                 (real_of_int (dilate_tau cfg - int i)
                                    / real_of_int (dilate_tau cfg)))\<rceil> 2)
                          else base)
              in if int i < inflate_tau cfg \<and> name \<in> set names
                 then round_double (rate / 2) else rate)
             True)"
proof -
  have tau: "0 < dilate_tau cfg" using assms(3) by linarith
  have ok: "\<forall>n \<in> fst ` set net. \<forall>b. ds n = Some b \<longrightarrow>
              (\<exists>d. layer_dilate cfg (dilate_tau cfg) i n b = Inr d)"
    using layer_dilate_in_window[OF tau assms(3) _ assms(2)] assms(6) by blast
  from patch_forwards_succeeds[OF ok] obtain net' backup where
    p: "patch_forwards cfg (Some ds) (dilate_tau cfg) i net Map.empty = (net', Inr backup)"
    by blast
  from patch_forwards_map_of[OF p assms(5) assms(4)] obtain d where
    d: "layer_dilate cfg (dilate_tau cfg) i name base = Inr d"
    and m: "map_of net' name = Some (ReDilateConvProcessor name d (int i < dilate_tau cfg))"
    by blast
  have "\<bar>base\<bar> \<le> max_double" using assms(4,6) by blast
  from layer_dilate_in_window[OF tau assms(3) this assms(2), of name] d
  have "d = (let rate = (if progressive cfg
                          then real_of_int (max \<lceil>round_double (base * round_double
                                 (real_of_int (dilate_tau cfg - int i)
                                    / real_of_int (dilate_tau cfg)))\<rceil> 2)
                          else base)
              in if int i < inflate_tau cfg \<and> name \<in> set names
                 then round_double (rate / 2) else rate)"
    by simp
  with p m assms(1,3) show ?thesis by auto
qed

theorem applied_dilation_rate_witness:
  "\<exists>net' backup.
     patch_forwards (rounding_config\<lparr>inflate_tau := 19\<rparr>)
       (dilate_settings (rounding_config\<lparr>inflate_tau := 19\<rparr>))
       (dilate_tau (rounding_config\<lparr>inflate_tau := 19\<rparr>)) 18 example_network Map.empty
       = (net', Inr backup) \<and>
     map_of net' ''conv'' = Some (ReDilateConvProcessor ''conv'' 4 True)"
proof -
  let ?cfg = "rounding_config\<lparr>inflate_tau := 19\<rparr>"
  have a: "dilate_settings ?cfg = Some [''conv'' \<mapsto> 25]"
    by (simp add: rounding_config_def example_defs)
  have b: "inflate_settings ?cfg = Some [''conv'']"
    by (simp add: rounding_config_def example_defs)
  have c: "int 18 < dilate_tau ?cfg" by (simp add: rounding_config_def example_defs)
  have d: "[''conv'' \<mapsto> (25::real)] ''conv'' = Some 25" by simp
  have e: "''conv'' \<in> fst ` set example_network" by (simp add: example_defs)
  have f: "\<forall>n b. [''conv'' \<mapsto> (25::real)] n = Some b \<longrightarrow> \<bar>b\<bar> \<le> max_double"
    by (simp add: max_double_def)
  have p: "progressive ?cfg" and t: "dilate_tau ?cfg = 25" and w: "inflate_tau ?cfg = 19"
    by (simp_all add: rounding_config_def example_defs)
  from applied_dilation_rate[OF a b c d e f] show ?thesis
    by (simp add: p t w round_double_7_25 round_double_31525197391593475)
qed

subsection \<open>C6: which forward computations are replaced\<close>

text \<open>
  Claim C6, as stated: a layer's forward computation is replaced only when its dilation rate
  is active, and at steps \<open>i \<ge> dilate_tau\<close> the forward computation of every layer,
  configured ones included, is left untouched. Lines 207 to 209 assign \<open>module.forward\<close>
  for every configured layer at every step and pass the window test as the flag
  \<open>activate\<close>: at step 10 with \<open>dilate_tau = 10\<close> the layer \<open>conv\<close> carries a processor,
  not its original forward computation.
\<close>

theorem inactive_step_replaces_forward_counterexample:
  "dilate_tau example_config \<le> int 10
   \<and> fst (patch_forwards example_config (dilate_settings example_config)
            (dilate_tau example_config) 10 example_network Map.empty)
       = [([], Native 0), (''conv'', ReDilateConvProcessor ''conv'' 4 False)]
   \<and> map_of example_network ''conv'' = Some (Native 1)"
  by (simp add: example_defs loop_defs)

text \<open>
  Claim C6, amended: a layer's forward computation is replaced exactly when its name is in
  the dilation settings of the branch. For every layer name not in the settings the forward
  computation is never replaced, at any step; a configured layer gets a
  \<open>ReDilateConvProcessor\<close> at every step, built with \<open>activate = (i < tau)\<close>, so that at
  the steps \<open>i \<ge> tau\<close> the processor installed is one built with \<open>activate = False\<close>.
\<close>

theorem forward_replaced_iff_configured:
  assumes "patch_forwards cfg (Some ds) tau i net Map.empty = (net', Inr backup)"
    and "k < length net"
  shows "length net' = length net \<and> fst (net' ! k) = fst (net ! k)
       \<and> (ds (fst (net ! k)) = None \<longrightarrow> snd (net' ! k) = snd (net ! k))
       \<and> (ds (fst (net ! k)) \<noteq> None \<longrightarrow>
            (\<exists>d. snd (net' ! k) = ReDilateConvProcessor (fst (net ! k)) d (int i < tau)))
       \<and> (ds (fst (net ! k)) \<noteq> None \<and> tau \<le> int i \<longrightarrow>
            (\<exists>d. snd (net' ! k) = ReDilateConvProcessor (fst (net ! k)) d False))"
proof -
  from patch_forwards_entries[OF assms(1)] assms(2)
  have len: "length net' = length net" and nm: "fst (net' ! k) = fst (net ! k)"
    and un: "ds (fst (net ! k)) = None \<longrightarrow> snd (net' ! k) = snd (net ! k)"
    and co: "\<forall>base. ds (fst (net ! k)) = Some base \<longrightarrow>
               (\<exists>d. layer_dilate cfg tau i (fst (net ! k)) base = Inr d \<and>
                    snd (net' ! k) = ReDilateConvProcessor (fst (net ! k)) d (int i < tau))"
    by simp_all
  from co have r: "ds (fst (net ! k)) \<noteq> None \<longrightarrow>
      (\<exists>d. snd (net' ! k) = ReDilateConvProcessor (fst (net ! k)) d (int i < tau))"
    by auto
  then have "ds (fst (net ! k)) \<noteq> None \<and> tau \<le> int i \<longrightarrow>
      (\<exists>d. snd (net' ! k) = ReDilateConvProcessor (fst (net ! k)) d False)"
    by auto
  with len nm un r show ?thesis by blast
qed

theorem forward_replaced_iff_configured_witness:
  "snd (fst (patch_forwards example_config (Some [''conv'' \<mapsto> 4]) 10 10 example_network Map.empty) ! 0)
     = snd (example_network ! 0)
   \<and> (\<exists>d. snd (fst (patch_forwards example_config (Some [''conv'' \<mapsto> 4]) 10 10 example_network
                       Map.empty) ! 1)
         = ReDilateConvProcessor ''conv'' d False)"
proof -
  let ?net' = "[([], Native 0), (''conv'', ReDilateConvProcessor ''conv'' 4 False)] :: nat network"
  have p: "patch_forwards example_config (Some [''conv'' \<mapsto> 4]) 10 10 example_network Map.empty
             = (?net', Inr [''conv'' \<mapsto> Native 1])"
    by (simp add: example_defs loop_defs)
  have k0: "0 < length example_network" and k1: "1 < length example_network"
    by (simp_all add: example_defs)
  from forward_replaced_iff_configured[OF p k0] forward_replaced_iff_configured[OF p k1]
  show ?thesis unfolding p by (simp add: example_defs)
qed

subsection \<open>C8: one patch record at a time\<close>

text \<open>
  Claim C8: during the loop at most one patch record is active per network, and before step
  \<open>i + 1\<close> begins every layer patched during step \<open>i\<close> has been restored. Step \<open>i + 1\<close>
  begins only when step \<open>i\<close> has returned. Then the pipeline is what it was before the
  step; the adapted branch has run on that pipeline and has given it back unchanged, and the
  vanilla branch, in the steps where it runs, has again started from that pipeline, so its
  record is taken when the record of the adapted branch has been released in full.
\<close>

theorem step_restores_every_layer:
  assumes "unique_names st"
    and "denoise_step ext cfg guidance_scale guidance_rescale i t st latents = (st', Inr latents')"
  shows "st' = st
       \<and> (\<exists>noise_pred.
            run_branch ext cfg (dilate_settings cfg) (dilate_tau cfg) i (adapted_slot cfg i)
              (latent_model_input ext guidance_scale latents t) t st = (st, Inr noise_pred))
       \<and> (int i < ndcfg_tau cfg \<longrightarrow>
            (\<exists>noise_pred_vanilla.
               run_branch ext cfg (ndcfg_dilate_settings cfg) (ndcfg_tau cfg) i
                 (vanilla_slot cfg i) (latent_model_input ext guidance_scale latents t) t st
                 = (st, Inr noise_pred_vanilla)))"
  using assms(2)
proof (cases rule: denoise_step_InrE)
  case (1 st1 noise_pred noise_pred_vanilla estimate)
  have st1: "st1 = st"
    using run_branch_restores[OF 1(1)] unique_names_get_net[OF assms(1)] by blast
  have st': "st' = st"
    using denoise_step_restores[OF assms] .
  have a: "\<exists>noise_pred.
            run_branch ext cfg (dilate_settings cfg) (dilate_tau cfg) i (adapted_slot cfg i)
              (latent_model_input ext guidance_scale latents t) t st = (st, Inr noise_pred)"
    using 1(1) st1 by auto
  have v: "int i < ndcfg_tau cfg \<longrightarrow>
            (\<exists>noise_pred_vanilla.
               run_branch ext cfg (ndcfg_dilate_settings cfg) (ndcfg_tau cfg) i
                 (vanilla_slot cfg i) (latent_model_input ext guidance_scale latents t) t st
                 = (st, Inr noise_pred_vanilla))"
    using 1(2)
  proof (cases rule: vanilla_branch_InrE)
    case skipped
    then show ?thesis by simp
  next
    case (ran sample)
    with st1 st' show ?thesis by auto
  qed
  from st' a v show ?thesis by blast
qed

theorem step_restores_every_layer_witness:
  "unique_names example_pipeline
   \<and> denoise_step example_externals (example_config\<lparr>ndcfg_tau := 1\<rparr>) 2 0 0 999
       example_pipeline 0 = (example_pipeline, Inr (- 10))
   \<and> (\<exists>noise_pred_vanilla.
        run_branch example_externals (example_config\<lparr>ndcfg_tau := 1\<rparr>) (Some [''conv'' \<mapsto> 2]) 1 0
          SelfUnet (Doubled 0 0) 999 example_pipeline
          = (example_pipeline, Inr noise_pred_vanilla))"
proof -
  let ?cfg = "example_config\<lparr>ndcfg_tau := 1\<rparr>"
  have u: "unique_names example_pipeline"
    by (simp add: example_defs loop_defs)
  have s: "denoise_step example_externals ?cfg 2 0 0 999 example_pipeline 0
             = (example_pipeline, Inr (- 10))"
    by (simp add: example_defs loop_defs)
  from step_restores_every_layer[OF u s] u s show ?thesis
    by (simp add: example_defs loop_defs)
qed

subsection \<open>C10: what the halving depends on\<close>

text \<open>
  Claim C10: the halving of a layer's rate in the inflate window depends on
  \<open>i < inflate_tau\<close> and on the layer being listed in the inflation settings only; it
  applies when no transform is configured, in which case the base network,
  \<open>self.unet\<close>, is the one that is patched with the halved rates and run.

  The theorem is about either branch: \<open>settings\<close> and \<open>tau\<close> are \<open>dilate_settings\<close> and
  \<open>dilate_tau\<close> (lines 196 to 209) or \<open>ndcfg_dilate_settings\<close> and \<open>ndcfg_tau\<close> (lines
  223 to 237). Whatever the transform is, the rate is halved exactly when \<open>i < inflate_tau\<close>
  and the layer is listed, and is left as it is otherwise; the rate that is halved is the
  base rate, or the progressive rate of the branch when \<open>progressive\<close> is on; the halving
  is the float division by 2. This holds for whichever network \<open>net\<close> the branch has
  bound; with no transform both branches bind \<open>self.unet\<close>, which is invoked with these
  rates installed.
\<close>

theorem halving_depends_on_window_and_listing:
  assumes "inflate_settings cfg = Some names" and "settings = Some ds"
    and "ds name = Some base" and "name \<in> fst ` set net"
    and "patch_forwards cfg settings tau i net Map.empty = (net', Inr backup)"
  shows "inflate_halve (cfg\<lparr>transform := tr\<rparr>) i name dilate
           = Inr (if int i < inflate_tau cfg \<and> name \<in> set names
                  then round_double (dilate / 2) else dilate)
       \<and> (\<exists>rate. (if progressive cfg then progressive_dilate base tau i = Inr rate
                   else rate = base) \<and>
            map_of net' name = Some (ReDilateConvProcessor name
              (if int i < inflate_tau cfg \<and> name \<in> set names
               then round_double (rate / 2) else rate)
              (int i < tau)))
       \<and> (transform cfg = None \<and> net = unet st \<longrightarrow>
            adapted_slot cfg i = SelfUnet \<and> vanilla_slot cfg i = SelfUnet \<and>
            run_branch ext cfg settings tau i SelfUnet input t st =
              (case unet_call ext net' input t of
                 Inl e \<Rightarrow> (st\<lparr>unet := net'\<rparr>, Inl e)
               | Inr sample \<Rightarrow> (st\<lparr>unet := restore_forwards backup net'\<rparr>, Inr sample)))"
proof -
  have halve: "inflate_halve c i name r
           = Inr (if int i < inflate_tau cfg \<and> name \<in> set names
                  then round_double (r / 2) else r)"
    if "inflate_settings c = Some names" "inflate_tau c = inflate_tau cfg" for c r
    using that by (simp add: inflate_halve_def)
  have h1: "inflate_halve (cfg\<lparr>transform := tr\<rparr>) i name dilate
           = Inr (if int i < inflate_tau cfg \<and> name \<in> set names
                  then round_double (dilate / 2) else dilate)"
    using assms(1) by (intro halve) simp_all
  from patch_forwards_map_of[OF assms(5)[unfolded assms(2)] assms(4) assms(3)] obtain d where
    d: "layer_dilate cfg tau i name base = Inr d"
    and m: "map_of net' name = Some (ReDilateConvProcessor name d (int i < tau))"
    by blast
  have h2: "\<exists>rate. (if progressive cfg then progressive_dilate base tau i = Inr rate
                   else rate = base) \<and>
            map_of net' name = Some (ReDilateConvProcessor name
              (if int i < inflate_tau cfg \<and> name \<in> set names
               then round_double (rate / 2) else rate)
              (int i < tau))"
  proof (cases "progressive cfg")
    case True
    with d obtain rate where r: "progressive_dilate base tau i = Inr rate"
      and "inflate_halve cfg i name rate = Inr d"
      by (cases "progressive_dilate base tau i") (simp_all add: layer_dilate_def)
    then have "d = (if int i < inflate_tau cfg \<and> name \<in> set names
               then round_double (rate / 2) else rate)"
      using halve[OF assms(1) refl, of rate] by simp
    with m r True show ?thesis by auto
  next
    case False
    with d have "inflate_halve cfg i name base = Inr d" by (simp add: layer_dilate_def)
    then have "d = (if int i < inflate_tau cfg \<and> name \<in> set names
               then round_double (base / 2) else base)"
      using halve[OF assms(1) refl, of base] by simp
    with m False show ?thesis by auto
  qed
  have g: "get_net st SelfUnet = Some (unet st)"
    by (simp add: get_net_def)
  have rb: "run_branch ext cfg settings tau i SelfUnet input t st =
              (case unet_call ext net' input t of
                 Inl e \<Rightarrow> (st\<lparr>unet := net'\<rparr>, Inl e)
               | Inr sample \<Rightarrow> (st\<lparr>unet := restore_forwards backup net'\<rparr>, Inr sample))"
    if "net = unet st"
    using run_branch_patched[OF g assms(5)[unfolded that], of ext input t]
    by (simp add: set_net_def split: sum.splits)
  have h3: "transform cfg = None \<and> net = unet st \<longrightarrow>
            adapted_slot cfg i = SelfUnet \<and> vanilla_slot cfg i = SelfUnet \<and>
            run_branch ext cfg settings tau i SelfUnet input t st =
              (case unet_call ext net' input t of
                 Inl e \<Rightarrow> (st\<lparr>unet := net'\<rparr>, Inl e)
               | Inr sample \<Rightarrow> (st\<lparr>unet := restore_forwards backup net'\<rparr>, Inr sample))"
    using rb by (simp add: adapted_slot_def vanilla_slot_def)
  from h1 h2 h3 show ?thesis by blast
qed

theorem halving_depends_on_window_and_listing_witness:
  "map_of (fst (patch_forwards (example_config\<lparr>inflate_tau := 3\<rparr>) (Some [''conv'' \<mapsto> 4]) 10 2
             example_network Map.empty)) ''conv''
     = Some (ReDilateConvProcessor ''conv'' 2 True)
   \<and> map_of (fst (patch_forwards (example_config\<lparr>inflate_tau := 3\<rparr>) (Some [''conv'' \<mapsto> 4]) 10 3
             example_network Map.empty)) ''conv''
     = Some (ReDilateConvProcessor ''conv'' 4 True)
   \<and> map_of (fst (patch_forwards (example_config\<lparr>inflate_tau := 3, inflate_settings := Some []\<rparr>)
             (Some [''conv'' \<mapsto> 4]) 10 2 example_network Map.empty)) ''conv''
     = Some (ReDilateConvProcessor ''conv'' 4 True)
   \<and> run_branch example_externals (example_config\<lparr>inflate_tau := 3, ndcfg_tau := 5\<rparr>)
       (Some [''conv'' \<mapsto> 2]) 5 2 SelfUnet (Single 0) 999 example_pipeline
     = (example_pipeline, Inr (Single 1))"
proof -
  let ?c = "example_config\<lparr>inflate_tau := 3\<rparr>"
  let ?e = "example_config\<lparr>inflate_tau := 3, inflate_settings := Some []\<rparr>"
  let ?v = "example_config\<lparr>inflate_tau := 3, ndcfg_tau := 5\<rparr>"
  let ?half = "[([], Native 0), (''conv'', ReDilateConvProcessor ''conv'' 2 True)] :: nat network"
  let ?full = "[([], Native 0), (''conv'', ReDilateConvProcessor ''conv'' 4 True)] :: nat network"
  let ?one = "[([], Native 0), (''conv'', ReDilateConvProcessor ''conv'' 1 True)] :: nat network"
  have n: "''conv'' \<in> fst ` set (unet example_pipeline)" by (simp add: example_defs)
  have s4: "[''conv'' \<mapsto> (4::real)] ''conv'' = Some 4" and s2: "[''conv'' \<mapsto> (2::real)] ''conv'' = Some 2"
    by simp_all
  have u: "unet example_pipeline = example_network" by (simp add: example_defs)
  have p1: "patch_forwards ?c (Some [''conv'' \<mapsto> 4]) 10 2 (unet example_pipeline) Map.empty
              = (?half, Inr [''conv'' \<mapsto> Native 1])"
    by (simp add: example_defs loop_defs)
  have p2: "patch_forwards ?c (Some [''conv'' \<mapsto> 4]) 10 3 (unet example_pipeline) Map.empty
              = (?full, Inr [''conv'' \<mapsto> Native 1])"
    by (simp add: example_defs loop_defs)
  have p3: "patch_forwards ?e (Some [''conv'' \<mapsto> 4]) 10 2 (unet example_pipeline) Map.empty
              = (?full, Inr [''conv'' \<mapsto> Native 1])"
    by (simp add: example_defs loop_defs)
  have p4: "patch_forwards ?v (Some [''conv'' \<mapsto> 2]) 5 2 (unet example_pipeline) Map.empty
              = (?one, Inr [''conv'' \<mapsto> Native 1])"
    by (simp add: example_defs loop_defs)
  have i1: "inflate_settings ?c = Some [''conv'']" and i3: "inflate_settings ?e = Some []"
    and i4: "inflate_settings ?v = Some [''conv'']"
    by (simp_all add: example_defs)
  have t: "transform ?v = None" by (simp add: example_defs)
  have c: "unet_call example_externals ?one (Single 0) 999 = Inr (Single 1)"
    by (simp add: example_defs)
  have r: "restore_forwards [''conv'' \<mapsto> Native 1] ?one = example_network"
    by (simp add: example_defs restore_forwards_def)
  from halving_depends_on_window_and_listing[OF i1 refl s4 n p1]
  have 1: "map_of ?half ''conv'' = Some (ReDilateConvProcessor ''conv'' 2 True)" by simp
  from halving_depends_on_window_and_listing[OF i1 refl s4 n p2]
  have 2: "map_of ?full ''conv'' = Some (ReDilateConvProcessor ''conv'' 4 True)" by simp
  from halving_depends_on_window_and_listing[OF i3 refl s4 n p3]
  have 3: "map_of ?full ''conv'' = Some (ReDilateConvProcessor ''conv'' 4 True)" by simp
  from halving_depends_on_window_and_listing[OF i4 refl s2 n p4,
      of undefined 1 example_pipeline example_externals "Single 0" 999] t c r
  have 4: "run_branch example_externals ?v (Some [''conv'' \<mapsto> 2]) 5 2 SelfUnet (Single 0) 999
             example_pipeline = (example_pipeline, Inr (Single 1))"
    by (simp add: example_defs)
  from 1 2 3 4 show ?thesis by (simp add: p1[unfolded u] p2[unfolded u] p3[unfolded u])
qed

subsection \<open>C7: guidance disabled\<close>

text \<open>
  Claim C7: when \<open>guidance_scale \<le> 1.0\<close> the estimate handed to the scheduler at every
  step is the raw prediction of the adapted branch: the latents are not doubled, the
  prediction is not split, no guidance is combined and no rescaling is applied, whatever
  \<open>guidance_rescale\<close> is.
\<close>

theorem guidance_disabled_raw_prediction:
  assumes "guidance_scale \<le> 1"
  shows "latent_model_input ext guidance_scale latents t = scale_model_input ext (Single latents) t
       \<and> combined_noise ext cfg guidance_scale guidance_rescale i noise_pred noise_pred_vanilla
           = Inr noise_pred
       \<and> (run_branch ext cfg (dilate_settings cfg) (dilate_tau cfg) i (adapted_slot cfg i)
            (scale_model_input ext (Single latents) t) t st = (st1, Inr noise_pred) \<and>
          vanilla_branch ext cfg i (scale_model_input ext (Single latents) t) t st1
            = (st2, Inr noise_pred_vanilla)
          \<longrightarrow> denoise_step ext cfg guidance_scale guidance_rescale i t st latents
                = (st2, Inr (scheduler_step ext noise_pred t latents)))"
proof -
  have n: "\<not> 1 < guidance_scale" using assms by simp
  have a: "latent_model_input ext guidance_scale latents t
             = scale_model_input ext (Single latents) t"
    using n by (simp add: latent_model_input_def)
  have b: "combined_noise ext cfg guidance_scale guidance_rescale i noise_pred noise_pred_vanilla
             = Inr noise_pred"
    using n by (simp add: combined_noise_def perform_guidance_def)
  have c: "run_branch ext cfg (dilate_settings cfg) (dilate_tau cfg) i (adapted_slot cfg i)
            (scale_model_input ext (Single latents) t) t st = (st1, Inr noise_pred) \<and>
          vanilla_branch ext cfg i (scale_model_input ext (Single latents) t) t st1
            = (st2, Inr noise_pred_vanilla)
          \<longrightarrow> denoise_step ext cfg guidance_scale guidance_rescale i t st latents
                = (st2, Inr (scheduler_step ext noise_pred t latents))"
    by (simp add: denoise_step_def a b)
  from a b c show ?thesis by blast
qed

theorem guidance_disabled_raw_prediction_witness:
  "(1::real) \<le> 1
   \<and> combined_noise example_externals example_config 1 (7 / 10) 0 (Single 4) None = Inr (Single 4)
   \<and> denoise_step example_externals example_config 1 (7 / 10) 0 999 example_pipeline 0
       = (example_pipeline, Inr (- 4))"
proof -
  have h: "(1::real) \<le> 1" by simp
  have r: "run_branch example_externals example_config (dilate_settings example_config)
             (dilate_tau example_config) 0 (adapted_slot example_config 0)
             (scale_model_input example_externals (Single 0) 999) 999 example_pipeline
             = (example_pipeline, Inr (Single 4))"
    by (simp add: example_defs loop_defs)
  have v: "vanilla_branch example_externals example_config 0
             (scale_model_input example_externals (Single 0) 999) 999 example_pipeline
             = (example_pipeline, Inr None)"
    by (simp add: example_defs loop_defs)
  from guidance_disabled_raw_prediction[OF h, of example_externals 0 999 example_config "7 / 10" 0
      "Single 4" None example_pipeline example_pipeline example_pipeline] r v
  show ?thesis by (simp add: example_defs)
qed

subsection \<open>C2: guidance in the vanilla window\<close>

text \<open>
  Claim C2, as stated: at every step \<open>i < ndcfg_tau\<close> with guidance enabled the combined
  estimate is \<open>uncond + guidance_scale * (cond - uncond)\<close> with both terms taken from the
  prediction of the vanilla branch. Line 255 takes the first term from the vanilla branch
  and the difference from the adapted branch: with the adapted halves 4 and 8, the vanilla
  halves 2 and 4 and scale 2 the estimate is \<open>2 + 2 * (8 - 4) = 10\<close>, not
  \<open>2 + 2 * (4 - 2) = 6\<close>.
\<close>

theorem vanilla_window_guidance_counterexample:
  "int 0 < ndcfg_tau (example_config\<lparr>ndcfg_tau := 1\<rparr>)
   \<and> combined_noise example_externals (example_config\<lparr>ndcfg_tau := 1\<rparr>) 2 0 0
       (Doubled 4 8) (Some (Doubled 2 4)) = Inr (Single 10)
   \<and> combined_noise example_externals (example_config\<lparr>ndcfg_tau := 1\<rparr>) 2 0 0
       (Doubled 4 8) (Some (Doubled 2 4)) \<noteq> Inr (Single (2 + 2 *\<^sub>R (4 - 2)))"
  by (simp add: example_defs loop_defs)

text \<open>
  Claim C2, amended: at every step \<open>i < ndcfg_tau\<close> with guidance enabled
  (\<open>guidance_scale > 1.0\<close>) the combined estimate is
  \<open>vanilla_uncond + guidance_scale * (cond - uncond)\<close>, where \<open>vanilla_uncond\<close> is the
  unconditional half of the vanilla prediction of that step and \<open>cond\<close>, \<open>uncond\<close> are the
  halves of the adapted prediction of that step; it is rescaled when
  \<open>guidance_rescale > 0\<close> and then handed to the scheduler.
\<close>

theorem vanilla_window_guidance:
  assumes "1 < guidance_scale" and "int i < ndcfg_tau cfg"
    and "run_branch ext cfg (dilate_settings cfg) (dilate_tau cfg) i (adapted_slot cfg i)
           (latent_model_input ext guidance_scale latents t) t st
           = (st1, Inr (Doubled uncond cond))"
    and "run_branch ext cfg (ndcfg_dilate_settings cfg) (ndcfg_tau cfg) i (vanilla_slot cfg i)
           (latent_model_input ext guidance_scale latents t) t st1
           = (st2, Inr (Doubled vanilla_uncond vanilla_cond))"
  shows "perform_guidance cfg guidance_scale i (Doubled uncond cond)
           (Some (Doubled vanilla_uncond vanilla_cond))
           = Inr (Guided (vanilla_uncond + guidance_scale *\<^sub>R (cond - uncond)) cond)
       \<and> denoise_step ext cfg guidance_scale guidance_rescale i t st latents
           = (st2, Inr (scheduler_step ext
                (Single (if 0 < guidance_rescale
                         then rescale_noise_cfg ext
                                (vanilla_uncond + guidance_scale *\<^sub>R (cond - uncond)) cond
                                guidance_rescale
                         else vanilla_uncond + guidance_scale *\<^sub>R (cond - uncond)))
                t latents))"
proof -
  have g: "perform_guidance cfg guidance_scale i (Doubled uncond cond)
           (Some (Doubled vanilla_uncond vanilla_cond))
           = Inr (Guided (vanilla_uncond + guidance_scale *\<^sub>R (cond - uncond)) cond)"
    using assms(1,2) by (simp add: perform_guidance_def chunk2_def)
  have v: "vanilla_branch ext cfg i (latent_model_input ext guidance_scale latents t) t st1
             = (st2, Inr (Some (Doubled vanilla_uncond vanilla_cond)))"
    using assms(2,4) by (simp add: vanilla_branch_def)
  have "denoise_step ext cfg guidance_scale guidance_rescale i t st latents
           = (st2, Inr (scheduler_step ext
                (Single (if 0 < guidance_rescale
                         then rescale_noise_cfg ext
                                (vanilla_uncond + guidance_scale *\<^sub>R (cond - uncond)) cond
                                guidance_rescale
                         else vanilla_uncond + guidance_scale *\<^sub>R (cond - uncond)))
                t latents))"
    using assms(1) by (simp add: denoise_step_def assms(3) v combined_noise_def g)
  with g show ?thesis by blast
qed

theorem vanilla_window_guidance_witness:
  "denoise_step example_externals (example_config\<lparr>ndcfg_tau := 1\<rparr>) 2 0 0 999 example_pipeline 0
     = (example_pipeline, Inr (- 10))"
proof -
  let ?cfg = "example_config\<lparr>ndcfg_tau := 1\<rparr>"
  have a: "(1::real) < 2" and b: "int 0 < ndcfg_tau ?cfg" by (simp_all add: example_defs)
  have r: "run_branch example_externals ?cfg (dilate_settings ?cfg) (dilate_tau ?cfg) 0
             (adapted_slot ?cfg 0) (latent_model_input example_externals 2 0 999) 999
             example_pipeline = (example_pipeline, Inr (Doubled 4 8))"
    by (simp add: example_defs loop_defs)
  have v: "run_branch example_externals ?cfg (ndcfg_dilate_settings ?cfg) (ndcfg_tau ?cfg) 0
             (vanilla_slot ?cfg 0) (latent_model_input example_externals 2 0 999) 999
             example_pipeline = (example_pipeline, Inr (Doubled 2 4))"
    by (simp add: example_defs loop_defs)
  from vanilla_window_guidance[OF a b r v, of 0] show ?thesis
    by (simp add: example_defs)
qed

subsection \<open>C3: a window of length zero\<close>

text \<open>
  Claim C3: with \<open>progressive = True\<close> and \<open>tau = 0\<close> the schedule is disabled without
  raising, the division by \<open>tau\<close> being guarded. The vanilla branch is guarded by
  \<open>if i < ndcfg_tau\<close> (line 223) and does not run when \<open>ndcfg_tau = 0\<close>. The adapted
  branch has no such guard: with \<open>dilate_tau = 0\<close> line 203 divides by zero at the first
  configured layer of step 0, and the step ends with \<open>ZeroDivisionError\<close>.
\<close>

theorem zero_window_progressive_raises:
  "denoise_step example_externals (example_config\<lparr>dilate_tau := 0, progressive := True\<rparr>)
     7.5 0 0 999 example_pipeline 0 = (example_pipeline, Inl ZeroDivisionError)
   \<and> vanilla_branch example_externals (example_config\<lparr>dilate_tau := 0, progressive := True\<rparr>)
       0 (Doubled 0 0) 999 example_pipeline = (example_pipeline, Inr None)"
  by (simp add: example_defs loop_defs)

end
